theory Spec2Isabelle
  imports Complex_Main "HOL-Library.Sublist"
begin

section \<open>Python values and text primitives\<close>

text \<open>
  The values that can reach \<open>analyze_text\<close> and \<open>preprocess_text\<close>: a field of a post is
  whatever the content source put there. Python's \<open>str\<close> is modelled by \<open>string\<close>, a
  character being read as a code point in the range U+0000..U+00FF; Python's \<open>float\<close> is
  modelled by \<open>real\<close> (rounding is not modelled).
\<close>

datatype pyval = PyNone | PyBool bool | PyInt int | PyStr string | PyList "pyval list"

datatype error = AttributeError | KeyError

text \<open>Python truthiness, as \<open>not text\<close> tests it.\<close>

fun truthy :: "pyval \<Rightarrow> bool" where
  "truthy PyNone = False"
| "truthy (PyBool b) = b"
| "truthy (PyInt i) = (i \<noteq> 0)"
| "truthy (PyStr s) = (s \<noteq> [])"
| "truthy (PyList vs) = (vs \<noteq> [])"

fun isinstance_str :: "pyval \<Rightarrow> bool" where
  "isinstance_str (PyStr s) = True"
| "isinstance_str v = False"

text \<open>
  The character classes of Python 3 on code points below 256: \<open>str.isspace\<close> (used by
  \<open>strip\<close>, \<open>split\<close> and the pattern class \<open>\s\<close>), the pattern class \<open>\w\<close>, and
  \<open>str.lower\<close>.
\<close>

definition isspace :: "char \<Rightarrow> bool" where
  "isspace c = (let n = (of_char c :: nat)
                in (9 \<le> n \<and> n \<le> 13) \<or> (28 \<le> n \<and> n \<le> 32) \<or> n = 133 \<or> n = 160)"

definition isword :: "char \<Rightarrow> bool" where
  "isword c = (let n = (of_char c :: nat)
               in (48 \<le> n \<and> n \<le> 57) \<or> (65 \<le> n \<and> n \<le> 90) \<or> n = 95 \<or> (97 \<le> n \<and> n \<le> 122)
                \<or> n = 170 \<or> n = 178 \<or> n = 179 \<or> n = 181 \<or> n = 185 \<or> n = 186
                \<or> (188 \<le> n \<and> n \<le> 190) \<or> (192 \<le> n \<and> n \<le> 214)
                \<or> (216 \<le> n \<and> n \<le> 246) \<or> (248 \<le> n \<and> n \<le> 255))"

definition lower_char :: "char \<Rightarrow> char" where
  "lower_char c = (let n = (of_char c :: nat)
                   in if (65 \<le> n \<and> n \<le> 90) \<or> (192 \<le> n \<and> n \<le> 222 \<and> n \<noteq> 215)
                      then char_of (n + 32) else c)"

definition lower :: "string \<Rightarrow> string" where
  "lower s = map lower_char s"

definition strip :: "string \<Rightarrow> string" where
  "strip s = rev (dropWhile isspace (rev (dropWhile isspace s)))"

text \<open>\<open>str.split()\<close> without arguments: the maximal runs of non-whitespace characters.\<close>

function str_split :: "string \<Rightarrow> string list" where
  "str_split s =
     (let s' = dropWhile isspace s
      in if s' = [] then []
         else takeWhile (\<lambda>c. \<not> isspace c) s' # str_split (dropWhile (\<lambda>c. \<not> isspace c) s'))"
  by pat_completeness auto
termination
proof (relation "measure length", goal_cases)
  case 1
  show ?case by simp
next
  case (2 s s')
  then obtain c cs where s': "s' = c # cs" and c: "\<not> isspace c"
    by (metis dropWhile_eq_Nil_conv hd_dropWhile list.exhaust_sel set_empty2 empty_iff)
  have "length (dropWhile (\<lambda>c. \<not> isspace c) s') \<le> length cs"
    using s' c by (simp add: length_dropWhile_le)
  also have "\<dots> < length s'" using s' by simp
  also have "\<dots> \<le> length s" using 2 by (simp add: length_dropWhile_le)
  finally show ?case by simp
qed

declare str_split.simps [simp del]

text \<open>\<open>sep.join(xs)\<close>.\<close>

fun join :: "string \<Rightarrow> string list \<Rightarrow> string" where
  "join sep [] = []"
| "join sep [x] = x"
| "join sep (x # y # ys) = x @ sep @ join sep (y # ys)"

subsection \<open>The two substitutions of \<open>preprocess_text\<close>\<close>

text \<open>
  \<open>url_at s\<close>: the pattern \<open>http\S+\<close> matches at the start of \<open>s\<close>. The match is greedy
  and nothing follows \<open>\S+\<close> in the pattern, so it runs up to the next whitespace
  character or the end of the text.
\<close>

definition url_at :: "string \<Rightarrow> bool" where
  "url_at s = (take 4 s = ''http'' \<and> (case drop 4 s of [] \<Rightarrow> False | d # ds \<Rightarrow> \<not> isspace d))"

text \<open>\<open>re.search(r'http\S+', s) is not None\<close>.\<close>

fun re_search_url :: "string \<Rightarrow> bool" where
  "re_search_url [] = False"
| "re_search_url (c # cs) = (url_at (c # cs) \<or> re_search_url cs)"

text \<open>\<open>re.sub(r'http\S+', '', s)\<close>: every leftmost match is deleted.\<close>

function re_sub_url :: "string \<Rightarrow> string" where
  "re_sub_url [] = []"
| "re_sub_url (c # cs) =
     (if url_at (c # cs) then re_sub_url (dropWhile (\<lambda>d. \<not> isspace d) (drop 4 (c # cs)))
      else c # re_sub_url cs)"
  by pat_completeness auto
termination
proof (relation "measure length", goal_cases)
  case 1
  show ?case by simp
next
  case (2 c cs)
  have "length (dropWhile (\<lambda>d. \<not> isspace d) (drop 4 (c # cs))) \<le> length (drop 4 (c # cs))"
    by (rule length_dropWhile_le)
  also have "\<dots> < length (c # cs)" by simp
  finally show ?case by simp
next
  case (3 c cs)
  show ?case by simp
qed

text \<open>\<open>re.sub(r'[^\w\s]', '', s)\<close>: every character that is neither \<open>\w\<close> nor \<open>\s\<close> is deleted.\<close>

definition re_sub_special :: "string \<Rightarrow> string" where
  "re_sub_special s = filter (\<lambda>c. isword c \<or> isspace c) s"

section \<open>The analyzer\<close>

subsection \<open>\<open>preprocess_text\<close>\<close>

definition preprocess_text :: "pyval \<Rightarrow> string" where
  "preprocess_text v =
     (if \<not> truthy v \<or> \<not> isinstance_str v then []
      else case v of
             PyStr s \<Rightarrow> lower (re_sub_special (re_sub_url s))
           | _ \<Rightarrow> [])"

subsection \<open>The analyzer object and its collaborators\<close>

text \<open>
  The dictionary returned by \<open>SentimentIntensityAnalyzer.polarity_scores\<close>, and the same
  dictionary after \<open>analyze_text\<close> has (possibly) added the two transformer keys.
\<close>

record polarity =
  compound :: real
  pos :: real
  neu :: real
  neg :: real

record text_sentiment = polarity +
  transformer_label :: "string option"
  transformer_score :: "real option"

text \<open>
  \<open>self\<close>. The lexicon scorer, the transformer pipeline, the stopword list and the spaCy
  model are libraries, not code of the repository: they are fields of the analyzer.
  \<open>transformer_model self s = None\<close> stands for any exception raised inside the \<open>try\<close>
  block; \<open>noun_chunks\<close> and \<open>ents\<close> give the \<open>.text\<close> of the noun chunks and of the
  entities of \<open>self.nlp(all_text)\<close>, in document order.
\<close>

record analyzer =
  sid :: "string \<Rightarrow> polarity"
  stopwords :: "string set"
  use_transformers :: bool
  transformer_model :: "string \<Rightarrow> (string \<times> real) option"
  noun_chunks :: "string \<Rightarrow> string list"
  ents :: "string \<Rightarrow> string list"

text \<open>The calls made to the collaborators, in the order they are made.\<close>

datatype call = PolarityScores string | TransformerModel string | Nlp string

subsection \<open>\<open>analyze_text\<close>\<close>

definition zero_sentiment :: text_sentiment where
  "zero_sentiment = \<lparr>compound = 0, pos = 0, neu = 0, neg = 0,
                      transformer_label = None, transformer_score = None\<rparr>"

definition with_transformer :: "polarity \<Rightarrow> string option \<Rightarrow> real option \<Rightarrow> text_sentiment" where
  "with_transformer p l s = \<lparr>compound = compound p, pos = pos p, neu = neu p, neg = neg p,
                              transformer_label = l, transformer_score = s\<rparr>"

text \<open>
  A truthy value that is not a \<open>str\<close> has no \<open>strip\<close>: Python raises \<open>AttributeError\<close>.
\<close>

definition analyze_text :: "analyzer \<Rightarrow> pyval \<Rightarrow> call list \<times> (error + text_sentiment)" where
  "analyze_text self v =
     (if \<not> truthy v then ([], Inr zero_sentiment)
      else case v of
        PyStr s \<Rightarrow>
          if strip s = [] then ([], Inr zero_sentiment)
          else if use_transformers self then
            (case transformer_model self (take 512 s) of
               Some (label, score) \<Rightarrow>
                 ([PolarityScores s, TransformerModel (take 512 s)],
                  Inr (with_transformer (sid self s) (Some label) (Some score)))
             | None \<Rightarrow>
                 ([PolarityScores s, TransformerModel (take 512 s)],
                  Inr (with_transformer (sid self s) None None)))
          else ([PolarityScores s], Inr (with_transformer (sid self s) None None))
      | _ \<Rightarrow> ([], Inl AttributeError))"

subsection \<open>\<open>extract_topics\<close>\<close>

text \<open>
  \<open>collections.Counter\<close>: a dictionary in insertion order, so the keys are in the order
  of their first occurrence.
\<close>

fun counter_add :: "'a \<Rightarrow> ('a \<times> nat) list \<Rightarrow> ('a \<times> nat) list" where
  "counter_add x [] = [(x, 1)]"
| "counter_add x ((y, n) # c) = (if x = y then (y, n + 1) # c else (y, n) # counter_add x c)"

definition Counter :: "'a list \<Rightarrow> ('a \<times> nat) list" where
  "Counter xs = foldl (\<lambda>c x. counter_add x c) [] xs"

text \<open>
  \<open>Counter.most_common(n)\<close> is \<open>heapq.nlargest(n, items, key = count)\<close>, which the
  library documents as \<open>sorted(items, key = count, reverse = True)[:n]\<close>: a stable sort,
  so entries of equal count stay in insertion order; nothing is returned for \<open>n \<le> 0\<close>.
\<close>

definition most_common :: "int \<Rightarrow> ('a \<times> nat) list \<Rightarrow> ('a \<times> nat) list" where
  "most_common n c = take (nat n) (sort_key (\<lambda>e. - int (snd e)) c)"

record topic_count =
  topic :: string
  count :: nat

text \<open>
  The list \<open>topics\<close> that the two loops of \<open>extract_topics\<close> fill from the document: the
  noun chunks that pass the filter, then the entities that pass theirs.
\<close>

definition topic_candidates :: "analyzer \<Rightarrow> string \<Rightarrow> string list" where
  "topic_candidates self all_text =
     filter (\<lambda>chunk. lower chunk \<notin> stopwords self \<and> length (str_split chunk) \<le> 3)
       (noun_chunks self all_text)
     @ filter (\<lambda>ent. lower ent \<notin> stopwords self) (ents self all_text)"

definition extract_topics :: "analyzer \<Rightarrow> pyval list \<Rightarrow> int \<Rightarrow> call list \<times> topic_count list" where
  "extract_topics self texts top_n =
     (let all_text = join '' '' (map preprocess_text texts);
          topics = topic_candidates self all_text;
          topic_counter = Counter topics
      in ([Nlp all_text],
          map (\<lambda>(t, n). \<lparr>topic = t, count = n\<rparr>) (most_common top_n topic_counter)))"

subsection \<open>\<open>calculate_overall_sentiment\<close> and \<open>analyze_posts\<close>\<close>

text \<open>
  A post is a dictionary used as a structure. The keys the analyzer reads or writes are
  fields (\<open>None\<close>: the key is absent); the keys it never touches (\<open>id\<close>, \<open>score\<close>,
  \<open>author\<close>, ...) are kept in \<open>other_fields\<close>.
\<close>

record post_sentiment =
  s_title :: text_sentiment
  s_content :: text_sentiment
  s_compound :: real

record post =
  post_title :: "pyval option"
  post_text :: "pyval option"
  sentiment :: "post_sentiment option"
  sentiment_category :: "string option"
  other_fields :: "(string \<times> pyval) list"

record overall =
  o_compound :: real
  positive :: real
  neutral :: real
  negative :: real

record batch =
  posts :: "post list"
  topics :: "topic_count list"
  overall_sentiment :: overall

text \<open>What \<open>analyze_posts\<close> returns: the bare list \<open>[]\<close>, or the dictionary of results.\<close>

datatype analysis = EmptyList | Analysis batch

text \<open>\<open>d.get(key, default)\<close> on a field.\<close>

definition dict_get :: "'a option \<Rightarrow> 'a \<Rightarrow> 'a" where
  "dict_get field dflt = (case field of None \<Rightarrow> dflt | Some v \<Rightarrow> v)"

text \<open>The \<open>if\<close>/\<open>elif\<close>/\<open>else\<close> that chooses \<open>sentiment_category\<close> in the loop body.\<close>

definition category_of :: "real \<Rightarrow> string" where
  "category_of compound_sentiment =
     (if compound_sentiment \<ge> 0.05 then ''positive''
      else if compound_sentiment \<le> - 0.05 then ''negative''
      else ''neutral'')"

text \<open>
  The body of the loop over the posts. An exception leaves the loop, so the calls made
  so far are kept and the post is not returned.
\<close>

definition annotate :: "analyzer \<Rightarrow> post \<Rightarrow> call list \<times> (error + post)" where
  "annotate self p =
     (case analyze_text self (dict_get (post_title p) (PyStr [])) of
        (c1, Inl e) \<Rightarrow> (c1, Inl e)
      | (c1, Inr title_sentiment) \<Rightarrow>
          (case analyze_text self (dict_get (post_text p) (PyStr [])) of
             (c2, Inl e) \<Rightarrow> (c1 @ c2, Inl e)
           | (c2, Inr content_sentiment) \<Rightarrow>
               (let compound_sentiment =
                      0.7 * compound title_sentiment + 0.3 * compound content_sentiment
                in (c1 @ c2,
                    Inr (p\<lparr>sentiment := Some \<lparr>s_title = title_sentiment,
                                               s_content = content_sentiment,
                                               s_compound = compound_sentiment\<rparr>,
                           sentiment_category := Some (category_of compound_sentiment)\<rparr>)))))"

fun annotate_all :: "analyzer \<Rightarrow> post list \<Rightarrow> call list \<times> (error + post list)" where
  "annotate_all self [] = ([], Inr [])"
| "annotate_all self (p # ps) =
     (case annotate self p of
        (c, Inl e) \<Rightarrow> (c, Inl e)
      | (c, Inr p') \<Rightarrow>
          (case annotate_all self ps of
             (cs, Inl e) \<Rightarrow> (c @ cs, Inl e)
           | (cs, Inr ps') \<Rightarrow> (c @ cs, Inr (p' # ps'))))"

text \<open>
  \<open>post['sentiment']['compound']\<close> and \<open>post['sentiment_category']\<close> raise \<open>KeyError\<close> on
  a post that lacks the key.
\<close>

definition calculate_overall_sentiment :: "post list \<Rightarrow> error + overall" where
  "calculate_overall_sentiment ps =
     (if ps = [] then Inr \<lparr>o_compound = 0, positive = 0, neutral = 0, negative = 0\<rparr>
      else case those (map sentiment ps) of
        None \<Rightarrow> Inl KeyError
      | Some sentiments \<Rightarrow>
          (case those (map sentiment_category ps) of
             None \<Rightarrow> Inl KeyError
           | Some sentiment_categories \<Rightarrow>
               (let sentiment_values = map s_compound sentiments
                in Inr \<lparr>o_compound = sum_list sentiment_values / real (length sentiment_values),
                        positive = real (count_list sentiment_categories ''positive'')
                                   / real (length sentiment_categories),
                        neutral = real (count_list sentiment_categories ''neutral'')
                                  / real (length sentiment_categories),
                        negative = real (count_list sentiment_categories ''negative'')
                                   / real (length sentiment_categories)\<rparr>)))"

definition analyze_posts :: "analyzer \<Rightarrow> post list \<Rightarrow> call list \<times> (error + analysis)" where
  "analyze_posts self ps =
     (if ps = [] then ([], Inr EmptyList)
      else case annotate_all self ps of
        (c, Inl e) \<Rightarrow> (c, Inl e)
      | (c, Inr ps') \<Rightarrow>
          (let all_titles = map (\<lambda>p. dict_get (post_title p) (PyStr [])) ps';
               all_texts = map (\<lambda>p. dict_get (post_text p) (PyStr [])) ps';
               (c', topics) = extract_topics self (all_titles @ all_texts) 10
           in case calculate_overall_sentiment ps' of
                Inl e \<Rightarrow> (c @ c', Inl e)
              | Inr ov \<Rightarrow>
                  (c @ c', Inr (Analysis \<lparr>posts = ps', topics = topics,
                                          overall_sentiment = ov\<rparr>))))"

subsection \<open>Notions used in the statements\<close>

text \<open>A field that is absent, \<open>None\<close> or a string: what the content source delivers.\<close>

fun str_or_absent :: "pyval option \<Rightarrow> bool" where
  "str_or_absent None = True"
| "str_or_absent (Some PyNone) = True"
| "str_or_absent (Some (PyStr s)) = True"
| "str_or_absent (Some v) = False"

definition text_fields_ok :: "post \<Rightarrow> bool" where
  "text_fields_ok p = (str_or_absent (post_title p) \<and> str_or_absent (post_text p))"



text \<open>
  An annotated item: it carries a sentiment record and one of the three categories, as
  the loop of \<open>analyze_posts\<close> leaves it.
\<close>

definition annotated :: "post \<Rightarrow> bool" where
  "annotated p = (sentiment p \<noteq> None
                  \<and> (sentiment_category p = Some ''positive''
                      \<or> sentiment_category p = Some ''neutral''
                      \<or> sentiment_category p = Some ''negative''))"

text \<open>The distinct elements of a list, in the order of their first occurrence.\<close>

fun first_occurrences :: "'a list \<Rightarrow> 'a list" where
  "first_occurrences [] = []"
| "first_occurrences (x # xs) = x # filter (\<lambda>y. y \<noteq> x) (first_occurrences xs)"

text \<open>
  The extractor returns spans of the document: every noun chunk and every entity is a
  contiguous piece of the text it was found in, as the \<open>.text\<close> of a spaCy span is.
\<close>

definition spans_of_text :: "analyzer \<Rightarrow> bool" where
  "spans_of_text self =
     (\<forall>s. (\<forall>t\<in>set (noun_chunks self s). sublist t s) \<and> (\<forall>t\<in>set (ents self s). sublist t s))"

text \<open>A text all of whose characters are their own lowercase form.\<close>

definition is_lower :: "string \<Rightarrow> bool" where
  "is_lower s = (lower s = s)"

subsection \<open>A small analyzer to evaluate the definitions on\<close>

text \<open>
  The word \<open>good\<close> scores a compound of \<open>1\<close>, the word \<open>bad\<close> a compound of \<open>-1\<close> and
  every other text \<open>0\<close>; the noun chunks are the words of the text, and there are no
  entities.
\<close>

definition stub_sid :: "string \<Rightarrow> polarity" where
  "stub_sid s = (if s = ''good'' then \<lparr>compound = 1, pos = 1, neu = 0, neg = 0\<rparr>
                 else if s = ''bad'' then \<lparr>compound = - 1, pos = 0, neu = 0, neg = 1\<rparr>
                 else \<lparr>compound = 0, pos = 0, neu = 1, neg = 0\<rparr>)"

definition stub_analyzer :: analyzer where
  "stub_analyzer = \<lparr>sid = stub_sid, stopwords = {''the'', ''a''}, use_transformers = False,
                     transformer_model = (\<lambda>s. None), noun_chunks = str_split,
                     ents = (\<lambda>s. [])\<rparr>"

definition stub_post :: "string \<Rightarrow> string \<Rightarrow> post" where
  "stub_post t b = \<lparr>post_title = Some (PyStr t), post_text = Some (PyStr b),
                    sentiment = None, sentiment_category = None, other_fields = []\<rparr>"



section \<open>Properties of the text normalizer\<close>

lemma of_char_lower_char:
  "(of_char (lower_char c) :: nat) =
     (let n = of_char c in if (65 \<le> n \<and> n \<le> 90) \<or> (192 \<le> n \<and> n \<le> 222 \<and> n \<noteq> 215) then n + 32 else n)"
  by (simp add: lower_char_def Let_def)

lemma lower_char_idem: "lower_char (lower_char c) = lower_char c"
proof -
  have "(of_char (lower_char (lower_char c)) :: nat) = of_char (lower_char c)"
    by (simp add: of_char_lower_char Let_def)
  then show ?thesis by (simp only: of_char_eq_iff)
qed

lemma isword_lower_char: "isword (lower_char c) = isword c"
  unfolding isword_def of_char_lower_char Let_def by auto

lemma isspace_lower_char: "isspace (lower_char c) = isspace c"
  unfolding isspace_def of_char_lower_char Let_def by auto

lemma not_search_sub_url: "\<not> re_search_url s \<Longrightarrow> re_sub_url s = s"
  by (induction s) auto

lemma length_re_sub_url_le: "length (re_sub_url s) \<le> length s"
proof (induction s rule: re_sub_url.induct)
  case 1
  show ?case by simp
next
  case (2 c cs)
  show ?case
  proof (cases "url_at (c # cs)")
    case True
    have "length (re_sub_url (c # cs)) \<le> length (dropWhile (\<lambda>d. \<not> isspace d) (drop 4 (c # cs)))"
      using True 2 by simp
    also have "\<dots> \<le> length (drop 4 (c # cs))" by (rule length_dropWhile_le)
    finally show ?thesis by simp
  next
    case False
    then show ?thesis using 2 by simp
  qed
qed

lemma search_sub_url_shorter: "re_search_url s \<Longrightarrow> length (re_sub_url s) < length s"
proof (induction s rule: re_sub_url.induct)
  case 1
  then show ?case by simp
next
  case (2 c cs)
  show ?case
  proof (cases "url_at (c # cs)")
    case True
    have "length (re_sub_url (c # cs)) \<le> length (dropWhile (\<lambda>d. \<not> isspace d) (drop 4 (c # cs)))"
      using True by (simp add: length_re_sub_url_le)
    also have "\<dots> \<le> length (drop 4 (c # cs))" by (rule length_dropWhile_le)
    finally show ?thesis by simp
  next
    case False
    then show ?thesis using 2 by simp
  qed
qed

lemma lower_idem: "lower (lower s) = lower s"
  by (simp add: lower_def lower_char_idem)

lemma preprocess_text_str: "preprocess_text (PyStr s) = lower (re_sub_special (re_sub_url s))"
  by (cases s) (simp_all add: preprocess_text_def lower_def re_sub_special_def)

lemma preprocess_text_chars:
  "c \<in> set (preprocess_text v) \<Longrightarrow> (isword c \<or> isspace c) \<and> lower_char c = c"
  by (cases v)
     (auto simp: preprocess_text_def lower_def re_sub_special_def isword_lower_char
                 isspace_lower_char lower_char_idem split: if_splits)

lemma lower_fixed: "(\<And>c. c \<in> set s \<Longrightarrow> lower_char c = c) \<Longrightarrow> lower s = s"
  by (simp add: lower_def map_idI)

lemma re_sub_special_fixed: "(\<And>c. c \<in> set s \<Longrightarrow> isword c \<or> isspace c) \<Longrightarrow> re_sub_special s = s"
  by (simp add: re_sub_special_def)

lemma length_preprocess_text_str: "length (preprocess_text (PyStr s)) \<le> length (re_sub_url s)"
  by (simp add: preprocess_text_str lower_def re_sub_special_def)

lemma preprocess_text_again:
  "preprocess_text (PyStr (preprocess_text v)) = preprocess_text v
     \<longleftrightarrow> \<not> re_search_url (preprocess_text v)"
proof (cases "re_search_url (preprocess_text v)")
  case True
  have "length (preprocess_text (PyStr (preprocess_text v))) \<le> length (re_sub_url (preprocess_text v))"
    by (rule length_preprocess_text_str)
  also have "\<dots> < length (preprocess_text v)"
    using True by (rule search_sub_url_shorter)
  finally show ?thesis using True by auto
next
  case False
  have "preprocess_text (PyStr (preprocess_text v)) = lower (re_sub_special (preprocess_text v))"
    using False by (simp add: preprocess_text_str not_search_sub_url)
  also have "\<dots> = lower (preprocess_text v)"
    using preprocess_text_chars [of _ v] by (simp add: re_sub_special_fixed)
  also have "\<dots> = preprocess_text v"
    using preprocess_text_chars [of _ v] by (simp add: lower_fixed)
  finally show ?thesis using False by simp
qed

text \<open>
  C6, as the code has it. \<open>preprocess_text\<close> is total: it returns the empty string for
  \<open>None\<close>, for the empty string and for every value that is not a string, and no
  operation in it can raise. It is idempotent exactly on the inputs whose normalized
  text contains no \<open>http\<close> followed by a non-whitespace character: applying it again
  returns the same text if and only if the pattern \<open>http\S+\<close> no longer matches.
\<close>

theorem preprocess_text_total_idempotent_iff:
  "preprocess_text PyNone = [] \<and> preprocess_text (PyStr []) = []
   \<and> (\<not> isinstance_str v \<longrightarrow> preprocess_text v = [])
   \<and> (preprocess_text (PyStr (preprocess_text v)) = preprocess_text v
        \<longleftrightarrow> \<not> re_search_url (preprocess_text v))"
  using preprocess_text_again [of v] by (simp add: preprocess_text_def)

text \<open>The theorem at the integer \<open>7\<close> and at the text \<open>Hello, World!\<close>.\<close>

theorem preprocess_text_total_idempotent_iff_witness:
  "preprocess_text (PyInt 7) = []
   \<and> preprocess_text (PyStr (preprocess_text (PyStr ''Hello, World!''))) = preprocess_text (PyStr ''Hello, World!'')"
proof -
  have a: "\<not> isinstance_str (PyInt 7)" by simp
  have b: "\<not> re_search_url (preprocess_text (PyStr ''Hello, World!''))"
    by code_simp
  have c: "preprocess_text (PyInt 7) = []"
    using preprocess_text_total_idempotent_iff [of "PyInt 7"] a by blast
  have d: "preprocess_text (PyStr (preprocess_text (PyStr ''Hello, World!''))) = preprocess_text (PyStr ''Hello, World!'')"
    using preprocess_text_total_idempotent_iff [of "PyStr ''Hello, World!''"] b by blast
  show ?thesis using c d by (rule conjI)
qed

text \<open>
  Idempotence as C6 states it fails: the URL pattern is case sensitive and is applied
  before lowercasing, so \<open>HTTPS\<close> is normalized to \<open>https\<close>, which a second pass deletes.
\<close>

theorem preprocess_text_not_idempotent:
  "preprocess_text (PyStr (preprocess_text (PyStr ''HTTPS''))) \<noteq> preprocess_text (PyStr ''HTTPS'')"
  by code_simp

section \<open>Properties of the item scorer\<close>

lemma strip_empty_iff: "strip s = [] \<longleftrightarrow> (\<forall>c\<in>set s. isspace c)"
proof
  assume "strip s = []"
  then have "\<forall>c\<in>set (dropWhile isspace s). isspace c"
    by (simp add: strip_def)
  then have "dropWhile isspace s = []"
    by (metis hd_dropWhile hd_in_set)
  then show "\<forall>c\<in>set s. isspace c"
    by (simp only: dropWhile_eq_Nil_conv)
next
  assume "\<forall>c\<in>set s. isspace c"
  then have "dropWhile isspace s = []"
    by (simp only: dropWhile_eq_Nil_conv)
  then show "strip s = []"
    by (simp only: strip_def rev.simps dropWhile.simps)
qed

text \<open>
  C7. For an empty or whitespace-only text, \<open>analyze_text\<close> returns the zero scores
  (compound, pos, neu and neg all \<open>0\<close>) with neither transformer key set, and it calls no
  collaborator: the list of calls is empty, whatever the analyzer is.
\<close>

theorem analyze_text_blank:
  assumes "\<forall>c\<in>set s. isspace c"
  shows "analyze_text self (PyStr s)
         = ([], Inr \<lparr>compound = 0, pos = 0, neu = 0, neg = 0,
                     transformer_label = None, transformer_score = None\<rparr>)"
  using assms by (simp add: analyze_text_def zero_sentiment_def strip_empty_iff)

text \<open>
  The theorem at the text of one space and at the empty text, for every analyzer.
\<close>

theorem analyze_text_blank_witness:
  "\<forall>self. analyze_text self (PyStr '' '')
         = ([], Inr \<lparr>compound = 0, pos = 0, neu = 0, neg = 0,
                     transformer_label = None, transformer_score = None\<rparr>)
     \<and> analyze_text self (PyStr [])
         = ([], Inr \<lparr>compound = 0, pos = 0, neu = 0, neg = 0,
                     transformer_label = None, transformer_score = None\<rparr>)"
proof -
  have a: "\<forall>c\<in>set '' ''. isspace c" by (simp add: isspace_def)
  have b: "\<forall>c\<in>set ''''. isspace c" by simp
  show ?thesis
    using analyze_text_blank [OF a] analyze_text_blank [OF b] by blast
qed

section \<open>Properties of the aggregate\<close>

lemma those_map_the: "\<forall>x\<in>set xs. x \<noteq> None \<Longrightarrow> those xs = Some (map the xs)"
  by (induction xs) auto

lemma count_list_categories:
  "\<forall>p\<in>set ps. sentiment_category p \<noteq> None \<Longrightarrow>
   count_list (map (\<lambda>p. the (sentiment_category p)) ps) c
     = length (filter (\<lambda>p. sentiment_category p = Some c) ps)"
  by (induction ps) auto


lemma calculate_overall_sentiment_annotated:
  assumes "ps \<noteq> []" and "\<forall>p\<in>set ps. annotated p"
  shows "calculate_overall_sentiment ps =
     Inr \<lparr>o_compound = (\<Sum>p\<leftarrow>ps. s_compound (the (sentiment p))) / real (length ps),
          positive = real (length (filter (\<lambda>p. sentiment_category p = Some ''positive'') ps)) / real (length ps),
          neutral = real (length (filter (\<lambda>p. sentiment_category p = Some ''neutral'') ps)) / real (length ps),
          negative = real (length (filter (\<lambda>p. sentiment_category p = Some ''negative'') ps)) / real (length ps)\<rparr>"
proof -
  have s: "those (map sentiment ps) = Some (map the (map sentiment ps))"
    using assms(2) by (intro those_map_the) (auto simp: annotated_def)
  have c0: "\<forall>p\<in>set ps. sentiment_category p \<noteq> None"
    using assms(2) by (auto simp: annotated_def)
  then have c: "those (map sentiment_category ps) = Some (map the (map sentiment_category ps))"
    by (intro those_map_the) auto
  show ?thesis
    using assms(1)
    by (simp add: calculate_overall_sentiment_def s c Let_def count_list_categories [OF c0] comp_def)
qed



section \<open>Properties of \<open>analyze_posts\<close>\<close>

lemma annotate_Inr_iff:
  "snd (annotate self p) = Inr p' \<longleftrightarrow>
     (\<exists>ts cts. snd (analyze_text self (dict_get (post_title p) (PyStr []))) = Inr ts
        \<and> snd (analyze_text self (dict_get (post_text p) (PyStr []))) = Inr cts
        \<and> p' = p\<lparr>sentiment := Some \<lparr>s_title = ts, s_content = cts,
                                     s_compound = 0.7 * compound ts + 0.3 * compound cts\<rparr>,
                  sentiment_category := Some (category_of (0.7 * compound ts + 0.3 * compound cts))\<rparr>)"
  by (auto simp: annotate_def Let_def split: prod.splits sum.splits)

lemma annotate_all_Inr_iff:
  "snd (annotate_all self ps) = Inr ps' \<longleftrightarrow>
     list_all2 (\<lambda>p p'. snd (annotate self p) = Inr p') ps ps'"
proof (induction ps arbitrary: ps')
  case Nil
  show ?case by auto
next
  case (Cons p ps)
  show ?case
    by (cases "annotate self p"; cases "annotate_all self ps")
       (auto simp: Cons.IH [symmetric] list_all2_Cons1 split: sum.splits)
qed

lemma analyze_posts_Analysis:
  assumes "analyze_posts self ps = (cs, Inr (Analysis b))"
  shows "list_all2 (\<lambda>p p'. snd (annotate self p) = Inr p') ps (posts b)"
proof -
  have "snd (annotate_all self ps) = Inr (posts b)"
    using assms
    by (auto simp: analyze_posts_def Let_def split: if_splits prod.splits sum.splits)
  then show ?thesis by (simp add: annotate_all_Inr_iff)
qed

lemma analyze_text_ok:
  "str_or_absent f \<Longrightarrow> \<exists>ts. snd (analyze_text self (dict_get f (PyStr []))) = Inr ts"
  by (cases f rule: str_or_absent.cases)
     (auto simp: analyze_text_def dict_get_def split: option.splits prod.splits)

lemma annotate_ok: "text_fields_ok p \<Longrightarrow> \<exists>p'. snd (annotate self p) = Inr p'"
  unfolding annotate_Inr_iff text_fields_ok_def
  using analyze_text_ok [of "post_title p" self] analyze_text_ok [of "post_text p" self]
  by blast

lemma annotate_all_ok:
  "\<forall>p\<in>set ps. text_fields_ok p \<Longrightarrow> \<exists>ps'. snd (annotate_all self ps) = Inr ps'"
proof (induction ps)
  case Nil
  show ?case by simp
next
  case (Cons p ps)
  obtain p' where p': "snd (annotate self p) = Inr p'"
    using Cons.prems annotate_ok [of p self] by auto
  obtain ps' where ps': "snd (annotate_all self ps) = Inr ps'"
    using Cons by auto
  have "list_all2 (\<lambda>p p'. snd (annotate self p) = Inr p') (p # ps) (p' # ps')"
    using p' ps' by (simp add: annotate_all_Inr_iff)
  then show ?case
    unfolding annotate_all_Inr_iff by blast
qed

lemma category_of_cases:
  "category_of c = ''positive'' \<or> category_of c = ''neutral'' \<or> category_of c = ''negative''"
  by (simp add: category_of_def)

lemma annotate_annotated: "snd (annotate self p) = Inr p' \<Longrightarrow> annotated p'"
  by (auto simp: annotate_Inr_iff annotated_def category_of_def)

lemma annotate_all_annotated:
  assumes "snd (annotate_all self ps) = Inr ps'"
  shows "\<forall>p'\<in>set ps'. annotated p'"
proof
  fix p' assume "p' \<in> set ps'"
  moreover have "list_all2 (\<lambda>p p'. snd (annotate self p) = Inr p') ps ps'"
    using assms by (simp add: annotate_all_Inr_iff)
  ultimately obtain p where "snd (annotate self p) = Inr p'"
    by (auto simp: list_all2_conv_all_nth in_set_conv_nth)
  then show "annotated p'" by (rule annotate_annotated)
qed

lemma analyze_posts_ok:
  assumes "ps \<noteq> []" and "\<forall>p\<in>set ps. text_fields_ok p"
  shows "\<exists>cs b. analyze_posts self ps = (cs, Inr (Analysis b))"
proof -
  obtain ps' where ps': "snd (annotate_all self ps) = Inr ps'"
    using annotate_all_ok [OF assms(2)] by blast
  have "length ps' = length ps"
    using ps' by (simp add: annotate_all_Inr_iff list_all2_lengthD)
  then have ne: "ps' \<noteq> []" using assms(1) by auto
  have "\<forall>p\<in>set ps'. annotated p"
    using ps' by (rule annotate_all_annotated)
  then have "\<exists>ov. calculate_overall_sentiment ps' = Inr ov"
    using calculate_overall_sentiment_annotated [OF ne] by blast
  then obtain ov where ov: "calculate_overall_sentiment ps' = Inr ov" ..
  obtain c where c: "annotate_all self ps = (c, Inr ps')"
    using ps' by (cases "annotate_all self ps") simp
  obtain c' tp where tp: "extract_topics self
      (map (\<lambda>p. dict_get (post_title p) (PyStr [])) ps'
       @ map (\<lambda>p. dict_get (post_text p) (PyStr [])) ps') 10 = (c', tp)"
    by (cases "extract_topics self
      (map (\<lambda>p. dict_get (post_title p) (PyStr [])) ps'
       @ map (\<lambda>p. dict_get (post_text p) (PyStr [])) ps') 10") 
  show ?thesis
    using assms(1) by (simp add: analyze_posts_def c tp ov)
qed

lemma analyze_text_stub:
  assumes "\<not> (\<forall>c\<in>set s. isspace c)"
  shows "analyze_text stub_analyzer (PyStr s)
           = ([PolarityScores s], Inr (with_transformer (stub_sid s) None None))"
proof -
  have "s \<noteq> []" using assms by auto
  then show ?thesis
    using assms by (simp add: analyze_text_def stub_analyzer_def strip_empty_iff)
qed

lemma analyze_text_stub_good:
  "snd (analyze_text stub_analyzer (PyStr ''good''))
     = Inr \<lparr>compound = 1, pos = 1, neu = 0, neg = 0,
            transformer_label = None, transformer_score = None\<rparr>"
proof -
  have "\<not> (\<forall>c\<in>set ''good''. isspace c)" by (simp add: isspace_def)
  then show ?thesis
    by (simp add: analyze_text_stub with_transformer_def stub_sid_def)
qed

lemma analyze_text_stub_meh:
  "snd (analyze_text stub_analyzer (PyStr ''meh''))
     = Inr \<lparr>compound = 0, pos = 0, neu = 1, neg = 0,
            transformer_label = None, transformer_score = None\<rparr>"
proof -
  have "\<not> (\<forall>c\<in>set ''meh''. isspace c)" by (simp add: isspace_def)
  then show ?thesis
    by (simp add: analyze_text_stub with_transformer_def stub_sid_def)
qed

lemma stub_post_ok: "text_fields_ok (stub_post t b)"
  by (simp add: text_fields_ok_def stub_post_def)

lemma stub_post_fields:
  "dict_get (post_title (stub_post t b)) d = PyStr t"
  "dict_get (post_text (stub_post t b)) d = PyStr b"
  by (simp_all add: stub_post_def dict_get_def)

lemma stub_single_annotation:
  assumes "analyze_posts stub_analyzer [stub_post ''good'' ''meh''] = (cs, Inr (Analysis b))"
  shows "\<exists>p' s. posts b = [p'] \<and> sentiment p' = Some s \<and> s_compound s = 0.7"
proof -
  have l: "list_all2 (\<lambda>p p'. snd (annotate stub_analyzer p) = Inr p')
             [stub_post ''good'' ''meh''] (posts b)"
    using assms by (rule analyze_posts_Analysis)
  then obtain p' where p': "posts b = [p']"
    and "snd (annotate stub_analyzer (stub_post ''good'' ''meh'')) = Inr p'"
    by (auto simp: list_all2_Cons1)
  then have "\<exists>s. sentiment p' = Some s \<and> s_compound s = 0.7"
    by (auto simp: annotate_Inr_iff stub_post_fields analyze_text_stub_good analyze_text_stub_meh)
  then show ?thesis using p' by blast
qed

text \<open>
  C1. On the empty list \<open>analyze_posts\<close> returns before the loop, the topic extraction and
  the aggregate, so no collaborator is called. What it returns there is the bare empty
  list, not the dictionary with no posts, no topics and the zero aggregate.
\<close>

theorem analyze_posts_empty:
  "analyze_posts self [] = ([], Inr EmptyList)
   \<and> snd (analyze_posts self [])
       \<noteq> Inr (Analysis \<lparr>posts = [], topics = [],
                         overall_sentiment = \<lparr>o_compound = 0, positive = 0, neutral = 0, negative = 0\<rparr>\<rparr>)"
  by (simp add: analyze_posts_def)



text \<open>
  C3. In a batch that \<open>analyze_posts\<close> returns, the category of every post is positive
  when its compound is at least \<open>0.05\<close>, negative when it is at most \<open>-0.05\<close>, and neutral
  otherwise. At the boundaries: \<open>0.05\<close> is positive, \<open>-0.05\<close> is negative, \<open>0\<close> is neutral
  and \<open>0.0500001\<close> is positive.
\<close>

theorem category_thresholds:
  "(analyze_posts self ps = (cs, Inr (Analysis b)) \<longrightarrow>
      (\<forall>p\<in>set (posts b). \<exists>s. sentiment p = Some s
         \<and> sentiment_category p
             = Some (if s_compound s \<ge> 0.05 then ''positive''
                     else if s_compound s \<le> - 0.05 then ''negative'' else ''neutral'')))
   \<and> category_of 0.05 = ''positive'' \<and> category_of (- 0.05) = ''negative''
   \<and> category_of 0 = ''neutral'' \<and> category_of 0.0500001 = ''positive''"
proof -
  have "\<exists>s. sentiment p = Some s
         \<and> sentiment_category p
             = Some (if s_compound s \<ge> 0.05 then ''positive''
                     else if s_compound s \<le> - 0.05 then ''negative'' else ''neutral'')"
    if a: "analyze_posts self ps = (cs, Inr (Analysis b))" and p: "p \<in> set (posts b)" for p
  proof -
    have "list_all2 (\<lambda>p p'. snd (annotate self p) = Inr p') ps (posts b)"
      using a by (rule analyze_posts_Analysis)
    then obtain q where "snd (annotate self q) = Inr p"
      using p by (auto simp: list_all2_conv_all_nth in_set_conv_nth)
    then show ?thesis
      by (auto simp: annotate_Inr_iff category_of_def)
  qed
  then show ?thesis by (simp add: category_of_def)
qed

text \<open>
  The post of compound \<open>0.7\<close> is positive.
\<close>

theorem category_thresholds_witness:
  "\<exists>cs b. analyze_posts stub_analyzer [stub_post ''good'' ''meh''] = (cs, Inr (Analysis b))
     \<and> sentiment_category (posts b ! 0) = Some ''positive''"
proof -
  have ok: "\<forall>p\<in>set [stub_post ''good'' ''meh'']. text_fields_ok p"
    by (simp add: stub_post_ok)
  obtain cs b where a: "analyze_posts stub_analyzer [stub_post ''good'' ''meh''] = (cs, Inr (Analysis b))"
    using analyze_posts_ok [OF _ ok, of stub_analyzer] by auto
  obtain p' s where p': "posts b = [p']" and s: "sentiment p' = Some s" and c: "s_compound s = 0.7"
    using stub_single_annotation [OF a] by blast
  have "p' \<in> set (posts b)" using p' by simp
  then have "\<exists>s. sentiment p' = Some s
         \<and> sentiment_category p'
             = Some (if s_compound s \<ge> 0.05 then ''positive''
                     else if s_compound s \<le> - 0.05 then ''negative'' else ''neutral'')"
    using category_thresholds [of stub_analyzer "[stub_post ''good'' ''meh'']" cs b] a by blast
  then have "sentiment_category p' = Some ''positive''"
    using s c by auto
  then show ?thesis using a p' by auto
qed

text \<open>
  C8. \<open>analyze_posts\<close> returns on every list of posts whose title and text are strings,
  \<open>None\<close> or absent, the empty list included. Whenever it returns, the items it returns
  are the input items in the input order: for the empty input the empty list, and
  otherwise as many posts as were given, the post at each position being the annotation
  of the input post at that position, with the same title, text and other fields.
\<close>

theorem items_keep_input_order:
  "((\<forall>p\<in>set ps. text_fields_ok p) \<longrightarrow> (\<exists>cs r. analyze_posts self ps = (cs, Inr r)))
   \<and> (analyze_posts self ps = (cs, Inr r) \<longrightarrow>
        (case r of
           EmptyList \<Rightarrow> ps = []
         | Analysis b \<Rightarrow>
             length (posts b) = length ps
             \<and> (\<forall>i<length ps. snd (annotate self (ps ! i)) = Inr (posts b ! i)
                   \<and> post_title (posts b ! i) = post_title (ps ! i)
                   \<and> post_text (posts b ! i) = post_text (ps ! i)
                   \<and> other_fields (posts b ! i) = other_fields (ps ! i))))"
proof (intro conjI impI)
  assume ok: "\<forall>p\<in>set ps. text_fields_ok p"
  show "\<exists>cs r. analyze_posts self ps = (cs, Inr r)"
  proof (cases "ps = []")
    case True
    then show ?thesis by (simp add: analyze_posts_def)
  next
    case False
    then show ?thesis using analyze_posts_ok [OF False ok, of self] by blast
  qed
next
  assume a: "analyze_posts self ps = (cs, Inr r)"
  show "case r of
           EmptyList \<Rightarrow> ps = []
         | Analysis b \<Rightarrow>
             length (posts b) = length ps
             \<and> (\<forall>i<length ps. snd (annotate self (ps ! i)) = Inr (posts b ! i)
                   \<and> post_title (posts b ! i) = post_title (ps ! i)
                   \<and> post_text (posts b ! i) = post_text (ps ! i)
                   \<and> other_fields (posts b ! i) = other_fields (ps ! i))"
  proof (cases r)
    case EmptyList
    then show ?thesis
      using a by (auto simp: analyze_posts_def Let_def split: if_splits prod.splits sum.splits)
  next
    case (Analysis b)
    have l: "list_all2 (\<lambda>p p'. snd (annotate self p) = Inr p') ps (posts b)"
      using a Analysis by (auto intro: analyze_posts_Analysis)
    have len: "length (posts b) = length ps"
      using l by (simp add: list_all2_lengthD)
    have "snd (annotate self (ps ! i)) = Inr (posts b ! i)
          \<and> post_title (posts b ! i) = post_title (ps ! i)
          \<and> post_text (posts b ! i) = post_text (ps ! i)
          \<and> other_fields (posts b ! i) = other_fields (ps ! i)" if i: "i < length ps" for i
    proof -
      have "snd (annotate self (ps ! i)) = Inr (posts b ! i)"
        using list_all2_nthD [OF l i] .
      then show ?thesis by (auto simp: annotate_Inr_iff)
    qed
    then show ?thesis using Analysis len by simp
  qed
qed

text \<open>
  Two posts come back in the order they were given.
\<close>

theorem items_keep_input_order_witness:
  "\<exists>cs b. analyze_posts stub_analyzer [stub_post ''good'' ''meh'', stub_post ''bad'' ''meh'']
             = (cs, Inr (Analysis b))
     \<and> map post_title (posts b) = [Some (PyStr ''good''), Some (PyStr ''bad'')]"
proof -
  let ?ps = "[stub_post ''good'' ''meh'', stub_post ''bad'' ''meh'']"
  have ok: "\<forall>p\<in>set ?ps. text_fields_ok p"
    by (simp add: stub_post_ok)
  obtain cs r where a: "analyze_posts stub_analyzer ?ps = (cs, Inr r)"
    using items_keep_input_order [of ?ps stub_analyzer] ok by blast
  have c: "case r of
           EmptyList \<Rightarrow> ?ps = []
         | Analysis b \<Rightarrow>
             length (posts b) = length ?ps
             \<and> (\<forall>i<length ?ps. snd (annotate stub_analyzer (?ps ! i)) = Inr (posts b ! i)
                   \<and> post_title (posts b ! i) = post_title (?ps ! i)
                   \<and> post_text (posts b ! i) = post_text (?ps ! i)
                   \<and> other_fields (posts b ! i) = other_fields (?ps ! i))"
    using items_keep_input_order [of ?ps stub_analyzer cs r] a by blast
  obtain b where b: "r = Analysis b"
    using c by (cases r) auto
  have len: "length (posts b) = 2" using c b by simp
  have t0: "post_title (posts b ! 0) = Some (PyStr ''good'')"
    using c b by (simp add: stub_post_def)
  have t1: "post_title (posts b ! 1) = Some (PyStr ''bad'')"
    using c b by (simp add: stub_post_def)
  obtain x y where xy: "posts b = [x, y]"
    using len by (cases "posts b"; cases "tl (posts b)") auto
  have "map post_title (posts b) = [Some (PyStr ''good''), Some (PyStr ''bad'')]"
    using t0 t1 xy by simp
  then show ?thesis using a b by auto
qed










section \<open>Properties of the topic extractor\<close>

lemma set_first_occurrences: "set (first_occurrences xs) = set xs"
  by (induction xs) auto

lemma distinct_first_occurrences: "distinct (first_occurrences xs)"
  by (induction xs) (auto simp: set_first_occurrences)

lemma first_occurrences_snoc:
  "first_occurrences (xs @ [x])
     = (if x \<in> set xs then first_occurrences xs else first_occurrences xs @ [x])"
  by (induction xs) auto

lemma counter_add_map:
  "distinct ys \<Longrightarrow>
   counter_add x (map (\<lambda>y. (y, g y)) ys)
     = (if x \<in> set ys then map (\<lambda>y. (y, if y = x then g y + 1 else g y)) ys
        else map (\<lambda>y. (y, g y)) ys @ [(x, 1)])"
  by (induction ys) auto

lemma Counter_snoc: "Counter (xs @ [x]) = counter_add x (Counter xs)"
  by (simp add: Counter_def)

lemma Counter_eq:
  "Counter xs = map (\<lambda>x. (x, count_list xs x)) (first_occurrences xs)"
proof (induction xs rule: rev_induct)
  case Nil
  show ?case by (simp add: Counter_def)
next
  case (snoc x xs)
  show ?case
    by (auto simp: Counter_snoc snoc.IH counter_add_map distinct_first_occurrences
          set_first_occurrences first_occurrences_snoc)
qed

lemma Counter_keys: "map fst (Counter xs) = first_occurrences xs"
  by (simp add: Counter_eq comp_def)

lemma Counter_entry: "e \<in> set (Counter xs) \<longleftrightarrow> fst e \<in> set xs \<and> snd e = count_list xs (fst e)"
  by (cases e) (auto simp: Counter_eq set_first_occurrences)

lemma count_list_pos: "x \<in> set xs \<Longrightarrow> 1 \<le> count_list xs x"
  using count_list_0_iff [of xs x] by (cases "count_list xs x") auto

lemma topic_candidates_stopwords:
  "t \<in> set (topic_candidates self s) \<Longrightarrow> lower t \<notin> stopwords self"
  by (auto simp: topic_candidates_def)

lemma topic_candidates_origin:
  "t \<in> set (topic_candidates self s) \<Longrightarrow>
   t \<in> set (ents self s) \<or> (t \<in> set (noun_chunks self s) \<and> length (str_split t) \<le> 3)"
  by (auto simp: topic_candidates_def)

lemma subseq_nth_pair:
  assumes "i < j" and "j < length xs"
  shows "subseq [xs ! i, xs ! j] xs"
proof -
  have i: "i < length xs" using assms by simp
  have "xs ! j \<in> set (drop (Suc i) xs)"
    using assms by (auto simp: in_set_conv_nth intro!: exI [of _ "j - Suc i"])
  then have "subseq [xs ! j] (drop (Suc i) xs)"
    by (simp add: subseq_singleton_left)
  then have "subseq (xs ! i # [xs ! j]) (xs ! i # drop (Suc i) xs)"
    by (rule subseq_Cons2)
  then have "subseq [xs ! i, xs ! j] (take i xs @ xs ! i # drop (Suc i) xs)"
    by (rule subseq_drop_many)
  then show ?thesis
    using id_take_nth_drop [OF i] by simp
qed

lemma length_most_common: "length (most_common n c) \<le> nat n"
  by (simp add: most_common_def)

lemma set_most_common: "set (most_common n c) \<subseteq> set c"
  using set_take_subset [of "nat n" "sort_key (\<lambda>e. - int (snd e)) c"]
  by (simp add: most_common_def)

lemma sorted_most_common: "sorted_wrt (\<lambda>a b. snd a \<ge> snd b) (most_common n c)"
proof -
  have "sorted (map (\<lambda>e. - int (snd e)) (sort_key (\<lambda>e. - int (snd e)) c))"
    by (rule sorted_sort_key)
  then have "sorted_wrt (\<lambda>a b. snd a \<ge> snd b) (sort_key (\<lambda>e. - int (snd e)) c)"
    by (simp add: sorted_map)
  then show ?thesis
    unfolding most_common_def by (rule sorted_wrt_take)
qed

lemma most_common_ties:
  assumes "i < j" and "j < length (most_common n c)"
    and "snd (most_common n c ! i) = snd (most_common n c ! j)"
  shows "subseq [most_common n c ! i, most_common n c ! j] c"
proof -
  let ?f = "\<lambda>e :: 'a \<times> nat. - int (snd e)"
  let ?S = "sort_key ?f c"
  let ?a = "most_common n c ! i" and ?b = "most_common n c ! j"
  have j: "j < nat n" "j < length ?S"
    using assms(2) by (simp_all add: most_common_def)
  have a: "?a = ?S ! i" and b: "?b = ?S ! j"
    using assms(1) j by (simp_all add: most_common_def)
  have "subseq [?S ! i, ?S ! j] ?S"
    using assms(1) j(2) by (rule subseq_nth_pair)
  then have "subseq (filter (\<lambda>y. ?f y = ?f ?a) [?a, ?b]) (filter (\<lambda>y. ?f y = ?f ?a) ?S)"
    unfolding a [symmetric] b [symmetric] by (rule subseq_filter)
  moreover have "filter (\<lambda>y. ?f y = ?f ?a) [?a, ?b] = [?a, ?b]"
    using assms(3) by simp
  moreover have "filter (\<lambda>y. ?f y = ?f ?a) ?S = filter (\<lambda>y. ?f y = ?f ?a) c"
    by (rule sort_key_stable)
  ultimately have "subseq [?a, ?b] (filter (\<lambda>y. ?f y = ?f ?a) c)"
    by simp
  moreover have "subseq (filter (\<lambda>y. ?f y = ?f ?a) c) c"
    by (rule subseq_filter_left)
  ultimately show ?thesis
    by (rule subseq_order.trans)
qed

lemma most_common_rest:
  assumes "e0 \<in> set c" and "e0 \<notin> set (most_common n c)" and "e \<in> set (most_common n c)"
  shows "snd e0 \<le> snd e"
proof -
  let ?f = "\<lambda>e :: 'a \<times> nat. - int (snd e)"
  let ?S = "sort_key ?f c"
  have "e0 \<in> set (take (nat n) ?S @ drop (nat n) ?S)"
    using assms(1) by simp
  then have e0: "e0 \<in> set (drop (nat n) ?S)"
    using assms(2) unfolding set_append most_common_def by blast
  have "sorted (map ?f (take (nat n) ?S @ drop (nat n) ?S))"
    using sorted_sort_key [of ?f c] by simp
  then have "\<forall>x\<in>set (map ?f (take (nat n) ?S)). \<forall>y\<in>set (map ?f (drop (nat n) ?S)). x \<le> y"
    unfolding map_append sorted_append by blast
  then have "?f e \<le> ?f e0"
    using e0 assms(3) by (simp add: most_common_def)
  then show ?thesis by simp
qed

lemma distinct_fst_most_common:
  assumes "distinct (map fst c)"
  shows "distinct (map fst (most_common n c))"
proof -
  have "distinct (map fst (sort_key (\<lambda>e. - int (snd e)) c))"
    using assms by (simp add: distinct_map)
  then show ?thesis
    by (simp add: most_common_def take_map [symmetric] distinct_take)
qed

lemma extract_topics_pairs:
  "map (\<lambda>t. (topic t, count t)) (snd (extract_topics self texts top_n))
     = most_common top_n (Counter (topic_candidates self (join '' '' (map preprocess_text texts))))"
  by (simp add: extract_topics_def Let_def comp_def case_prod_beta)

text \<open>
  C5. \<open>extract_topics\<close> returns at most \<open>top_n\<close> entries (none when \<open>top_n\<close> is not
  positive), most frequent first, entries of equal count in the order in which their
  topics were first met among the candidates. The topics returned are distinct, each
  with the number of times it occurs among the candidates, and no candidate left out
  occurs more often than a returned one. No returned topic is a stopword in lowercase,
  and every returned topic is an entity or a noun chunk of at most three words.
\<close>

theorem extract_topics_top_n:
  assumes r: "r = snd (extract_topics self texts top_n)"
    and all_text: "all_text = join '' '' (map preprocess_text texts)"
    and cands: "cands = topic_candidates self all_text"
  shows "length r \<le> nat top_n
    \<and> sorted_wrt (\<lambda>a b. count a \<ge> count b) r
    \<and> (\<forall>i j. i < j \<and> j < length r \<and> count (r ! i) = count (r ! j) \<longrightarrow>
          subseq [topic (r ! i), topic (r ! j)] (first_occurrences cands))
    \<and> distinct (map topic r)
    \<and> (\<forall>t\<in>set r. count t = count_list cands (topic t) \<and> 1 \<le> count t)
    \<and> (\<forall>x\<in>set cands. x \<notin> topic ` set r \<longrightarrow> (\<forall>t\<in>set r. count_list cands x \<le> count t))
    \<and> (\<forall>t\<in>set r. lower (topic t) \<notin> stopwords self)
    \<and> (\<forall>t\<in>set r. topic t \<in> set (ents self all_text)
          \<or> (topic t \<in> set (noun_chunks self all_text) \<and> length (str_split (topic t)) \<le> 3))"
proof -
  let ?P = "most_common top_n (Counter cands)"
  have P: "map (\<lambda>t. (topic t, count t)) r = ?P"
    unfolding r cands all_text by (rule extract_topics_pairs)
  have len: "length r = length ?P"
    using arg_cong [OF P, of length] by simp
  have nth: "(topic (r ! i), count (r ! i)) = ?P ! i" if "i < length r" for i
    using that by (simp add: P [symmetric])
  have mem: "(topic t, count t) \<in> set ?P" if "t \<in> set r" for t
  proof -
    have "(topic t, count t) \<in> set (map (\<lambda>t. (topic t, count t)) r)"
      using that by simp
    then show ?thesis by (simp only: P)
  qed
  have inC: "(topic t, count t) \<in> set (Counter cands)" if "t \<in> set r" for t
    using mem [OF that] set_most_common by blast
  have c1: "length r \<le> nat top_n"
    using len length_most_common [of top_n "Counter cands"] by simp
  have "sorted_wrt (\<lambda>a b. snd a \<ge> snd b) (map (\<lambda>t. (topic t, count t)) r)"
    unfolding P by (rule sorted_most_common)
  then have c2: "sorted_wrt (\<lambda>a b. count a \<ge> count b) r"
    by (simp add: sorted_wrt_map)
  have c3: "subseq [topic (r ! i), topic (r ! j)] (first_occurrences cands)"
    if "i < j" "j < length r" "count (r ! i) = count (r ! j)" for i j
  proof -
    have i: "i < length r" using that by simp
    have "subseq [?P ! i, ?P ! j] (Counter cands)"
    proof (rule most_common_ties)
      show "i < j" by fact
      show "j < length ?P" using that len by simp
      show "snd (?P ! i) = snd (?P ! j)"
        using that(3) by (simp add: nth [OF i, symmetric] nth [OF that(2), symmetric])
    qed
    then have "subseq (map fst [?P ! i, ?P ! j]) (map fst (Counter cands))"
      by (rule subseq_map)
    then show ?thesis
      by (simp add: nth [OF i, symmetric] nth [OF that(2), symmetric] Counter_keys)
  qed
  have "distinct (map fst ?P)"
    by (rule distinct_fst_most_common) (simp add: Counter_keys distinct_first_occurrences)
  then have c4: "distinct (map topic r)"
    unfolding P [symmetric] by (simp add: comp_def)
  have c5: "count t = count_list cands (topic t) \<and> 1 \<le> count t" if "t \<in> set r" for t
    using inC [OF that] count_list_pos [of "topic t" cands] by (simp add: Counter_entry)
  have c6: "count_list cands x \<le> count t"
    if "x \<in> set cands" "x \<notin> topic ` set r" "t \<in> set r" for x t
  proof -
    have "(x, count_list cands x) \<in> set (Counter cands)"
      using that(1) by (simp add: Counter_entry)
    moreover have "(x, count_list cands x) \<notin> set ?P"
    proof
      assume "(x, count_list cands x) \<in> set ?P"
      then have "(x, count_list cands x) \<in> set (map (\<lambda>t. (topic t, count t)) r)"
        by (simp only: P)
      then show False using that(2) by auto
    qed
    ultimately have "snd (x, count_list cands x) \<le> snd (topic t, count t)"
      using mem [OF that(3)] by (rule most_common_rest)
    then show ?thesis by simp
  qed
  have inc: "topic t \<in> set cands" if "t \<in> set r" for t
    using inC [OF that] by (simp add: Counter_entry)
  have c7: "lower (topic t) \<notin> stopwords self" if "t \<in> set r" for t
    using inc [OF that] unfolding cands by (rule topic_candidates_stopwords)
  have c8: "topic t \<in> set (ents self all_text)
          \<or> (topic t \<in> set (noun_chunks self all_text) \<and> length (str_split (topic t)) \<le> 3)"
    if "t \<in> set r" for t
    using inc [OF that] unfolding cands by (rule topic_candidates_origin)
  have c3': "\<forall>i j. i < j \<and> j < length r \<and> count (r ! i) = count (r ! j) \<longrightarrow>
          subseq [topic (r ! i), topic (r ! j)] (first_occurrences cands)"
    using c3 by blast
  have c5': "\<forall>t\<in>set r. count t = count_list cands (topic t) \<and> 1 \<le> count t"
    using c5 by blast
  have c6': "\<forall>x\<in>set cands. x \<notin> topic ` set r \<longrightarrow> (\<forall>t\<in>set r. count_list cands x \<le> count t)"
    using c6 by blast
  have c7': "\<forall>t\<in>set r. lower (topic t) \<notin> stopwords self"
    using c7 by blast
  have c8': "\<forall>t\<in>set r. topic t \<in> set (ents self all_text)
          \<or> (topic t \<in> set (noun_chunks self all_text) \<and> length (str_split (topic t)) \<le> 3)"
    using c8 by blast
  show ?thesis
    by (intro conjI) (rule c1 c2 c3' c4 c5' c6' c7' c8')+
qed

lemma extract_topics_entry:
  assumes "t \<in> set (snd (extract_topics self texts top_n))"
  shows "topic t \<in> set (topic_candidates self (join '' '' (map preprocess_text texts)))
     \<and> count t = count_list (topic_candidates self (join '' '' (map preprocess_text texts))) (topic t)"
proof -
  let ?c = "topic_candidates self (join '' '' (map preprocess_text texts))"
  have "(topic t, count t) \<in> set (map (\<lambda>t. (topic t, count t)) (snd (extract_topics self texts top_n)))"
    using assms by simp
  then have "(topic t, count t) \<in> set (most_common top_n (Counter ?c))"
    by (simp only: extract_topics_pairs)
  then have "(topic t, count t) \<in> set (Counter ?c)"
    using set_most_common by blast
  then show ?thesis by (simp add: Counter_entry)
qed

lemma is_lower_iff: "is_lower s \<longleftrightarrow> (\<forall>c\<in>set s. lower_char c = c)"
  unfolding is_lower_def lower_def by (induction s) auto

lemma is_lower_preprocess_text: "is_lower (preprocess_text v)"
  using preprocess_text_chars [of _ v] by (simp add: is_lower_iff)

lemma lower_char_space: "lower_char CHR '' '' = CHR '' ''"
  by (simp add: lower_char_def)

lemma is_lower_join:
  "\<forall>x\<in>set xs. is_lower x \<Longrightarrow> is_lower (join '' '' xs)"
  by (induction "'' ''" xs rule: join.induct) (auto simp: is_lower_iff lower_char_space)

lemma is_lower_all_text: "is_lower (join '' '' (map preprocess_text texts))"
  by (rule is_lower_join) (simp add: is_lower_preprocess_text)

lemma is_lower_sublist: "sublist t s \<Longrightarrow> is_lower s \<Longrightarrow> is_lower t"
  using set_mono_sublist [of t s] by (auto simp: is_lower_iff)

lemma topic_candidates_spans:
  assumes "spans_of_text self" and "t \<in> set (topic_candidates self s)"
  shows "sublist t s"
  using assms by (auto simp: spans_of_text_def topic_candidates_def)

text \<open>
  C10. When the extractor returns spans of the document it is given, every topic that
  \<open>extract_topics\<close> returns is lowercase, the document being the join of normalized and
  hence lowercased texts; so two returned entries whose topics agree up to case are the
  same entry.
\<close>

theorem topics_are_lowercase:
  assumes "spans_of_text self" and "r = snd (extract_topics self texts top_n)"
  shows "(\<forall>t\<in>set r. is_lower (topic t))
     \<and> (\<forall>a\<in>set r. \<forall>b\<in>set r. lower (topic a) = lower (topic b) \<longrightarrow> a = b)"
proof -
  let ?s = "join '' '' (map preprocess_text texts)"
  have low: "is_lower (topic t)" if "t \<in> set r" for t
  proof -
    have "topic t \<in> set (topic_candidates self ?s)"
      using that extract_topics_entry unfolding assms(2) by blast
    then have "sublist (topic t) ?s"
      using assms(1) by (rule topic_candidates_spans [rotated])
    then show ?thesis
      using is_lower_all_text by (rule is_lower_sublist)
  qed
  have eq: "a = b" if "a \<in> set r" "b \<in> set r" "lower (topic a) = lower (topic b)" for a b
  proof -
    have t: "topic a = topic b"
      using low [OF that(1)] low [OF that(2)] that(3) by (simp add: is_lower_def)
    have "count a = count_list (topic_candidates self ?s) (topic a)"
      using that(1) extract_topics_entry unfolding assms(2) by blast
    moreover have "count b = count_list (topic_candidates self ?s) (topic b)"
      using that(2) extract_topics_entry unfolding assms(2) by blast
    ultimately have "count a = count b" using t by simp
    then show ?thesis using t by simp
  qed
  show ?thesis using low eq by blast
qed

lemma sublist_trans:
  assumes "sublist xs ys" and "sublist ys zs"
  shows "sublist xs zs"
proof -
  obtain a b where ys: "ys = a @ xs @ b"
    using assms(1) by (auto simp: sublist_def)
  obtain c d where zs: "zs = c @ ys @ d"
    using assms(2) by (auto simp: sublist_def)
  have "zs = (c @ a) @ xs @ (b @ d)"
    by (simp add: ys zs)
  then show ?thesis
    unfolding sublist_def by blast
qed

lemma str_split_sublist: "t \<in> set (str_split s) \<Longrightarrow> sublist t s"
proof (induction s arbitrary: t rule: str_split.induct)
  case (1 s)
  let ?s' = "dropWhile isspace s"
  have ne: "?s' \<noteq> []"
    using "1.prems" by (subst (asm) str_split.simps) (auto simp: Let_def split: if_splits)
  have s': "sublist ?s' s" by (rule sublist_dropWhile)
  have "t = takeWhile (\<lambda>c. \<not> isspace c) ?s' \<or> t \<in> set (str_split (dropWhile (\<lambda>c. \<not> isspace c) ?s'))"
    using "1.prems" ne by (subst (asm) str_split.simps) (auto simp: Let_def split: if_splits)
  then show ?case
  proof
    assume "t = takeWhile (\<lambda>c. \<not> isspace c) ?s'"
    then have "sublist t ?s'" by simp
    then show ?thesis using s' by (rule sublist_trans)
  next
    assume "t \<in> set (str_split (dropWhile (\<lambda>c. \<not> isspace c) ?s'))"
    then have "sublist t (dropWhile (\<lambda>c. \<not> isspace c) ?s')"
      using "1.IH" [OF refl ne] by blast
    moreover have "sublist (dropWhile (\<lambda>c. \<not> isspace c) ?s') ?s'"
      by (rule sublist_dropWhile)
    ultimately have "sublist t ?s'" by (rule sublist_trans)
    then show ?thesis using s' by (rule sublist_trans)
  qed
qed

lemma spans_of_text_stub: "spans_of_text stub_analyzer"
  by (simp add: spans_of_text_def stub_analyzer_def str_split_sublist)

text \<open>
  Two topics occur twice each; with \<open>top_n = 1\<close> the one met first is returned.
\<close>

theorem extract_topics_top_n_witness:
  "snd (extract_topics stub_analyzer [PyStr ''good bad good'', PyStr ''the bad''] 1)
     = [\<lparr>topic = ''good'', count = 2\<rparr>]
   \<and> length (snd (extract_topics stub_analyzer [PyStr ''good bad good'', PyStr ''the bad''] 1))
       \<le> nat 1
   \<and> lower (topic (hd (snd (extract_topics stub_analyzer
                              [PyStr ''good bad good'', PyStr ''the bad''] 1))))
       \<notin> stopwords stub_analyzer"
proof -
  let ?r = "snd (extract_topics stub_analyzer [PyStr ''good bad good'', PyStr ''the bad''] 1)"
  have e: "?r = [\<lparr>topic = ''good'', count = 2\<rparr>]"
    by code_simp
  note t = extract_topics_top_n [OF refl refl refl, of stub_analyzer
             "[PyStr ''good bad good'', PyStr ''the bad'']" 1]
  have l: "length ?r \<le> nat 1"
    using t by (rule conjunct1)
  have m: "\<forall>t\<in>set ?r. lower (topic t) \<notin> stopwords stub_analyzer"
    using t by blast
  have "hd ?r \<in> set ?r"
    by (simp only: e list.sel list.set insertI1)
  then have "lower (topic (hd ?r)) \<notin> stopwords stub_analyzer"
    using m by blast
  then show ?thesis
    using e l by blast
qed

text \<open>
  The words \<open>Good\<close> and \<open>good\<close> of a text are counted as the one topic \<open>good\<close>.
\<close>

theorem topics_are_lowercase_witness:
  "snd (extract_topics stub_analyzer [PyStr ''Good BAD, good!''] 5)
     = [\<lparr>topic = ''good'', count = 2\<rparr>, \<lparr>topic = ''bad'', count = 1\<rparr>]
   \<and> is_lower (topic (hd (snd (extract_topics stub_analyzer [PyStr ''Good BAD, good!''] 5))))"
proof -
  let ?r = "snd (extract_topics stub_analyzer [PyStr ''Good BAD, good!''] 5)"
  have e: "?r = [\<lparr>topic = ''good'', count = 2\<rparr>, \<lparr>topic = ''bad'', count = 1\<rparr>]"
    by code_simp
  have m: "\<forall>t\<in>set ?r. is_lower (topic t)"
    using topics_are_lowercase [OF spans_of_text_stub refl, of "[PyStr ''Good BAD, good!'']" 5]
    by (rule conjunct1)
  have "hd ?r \<in> set ?r"
    by (simp only: e list.sel list.set insertI1)
  then have "is_lower (topic (hd ?r))"
    using m by blast
  then show ?thesis
    using e by blast
qed

end
